theory Spec2Isabelle
  imports Main
begin

section \<open>Data model\<close>

text \<open>
  A \<open>time.Time\<close> is an instant, counted from the zero value \<open>time.Time{}\<close>, which is
  therefore the number 0.
\<close>

type_synonym gotime = int

definition time_zero :: gotime where
  "time_zero = 0"

record Tweet =
  Permalink :: string
  Name :: string
  Timestamp :: gotime
  Contents :: string
  ID :: string

text \<open>The composite literal \<open>Tweet{}\<close>: every field holds its zero value.\<close>

definition Tweet_zero :: Tweet where
  "Tweet_zero = \<lparr>Permalink = [], Name = [], Timestamp = time_zero, Contents = [], ID = []\<rparr>"

text \<open>
  \<open>Scrape.Info\<close> is an \<open>io.Writer\<close> or nil. The writer is the text written to it so
  far; \<open>None\<close> is the nil writer.
\<close>

record Scrape =
  Info :: "string option"

text \<open>
  An error value is the sentinel \<open>errNoTweets\<close>, compared by identity in the source, or
  a fresh value made by \<open>fmt.Errorf\<close>, which is never identical to the sentinel.
\<close>

datatype error = errNoTweets | Errorf string

fun Error :: "error \<Rightarrow> string" where
  "Error errNoTweets = ''tweets: no tweets found''"
| "Error (Errorf msg) = msg"

text \<open>A run-time panic of an indexing expression: the index and the length of the slice.\<close>

datatype panic = IndexOutOfRange int nat

text \<open>What a call of \<open>tweets\<close> or \<open>Tweets\<close> does: it panics, or returns a slice and an error.\<close>

datatype ret = Panic panic | Return "Tweet list" "error option"

subsection \<open>The external collaborators\<close>

text \<open>
  What the three \<open>Find\<close> calls of \<open>tweets\<close> select in a parsed document, in document
  order, each node reduced to what the source reads from it:
  the \<open>data-permalink-path\<close> attribute of each tweet node (\<open>None\<close> when \<open>Attr\<close>
  answers \<open>ok = false\<close>), the \<open>title\<close> attribute of each timestamp node, and the
  \<open>Text()\<close> of each text container.
\<close>

record page =
  tweet_nodes :: "string option list"
  timestamp_nodes :: "string option list"
  text_nodes :: "string list"

text \<open>
  The \<open>items_html\<close> string of a response is represented by what
  \<open>goquery.NewDocumentFromReader\<close> makes of it: an error or a document.
\<close>

datatype items_html = NoDocument string | Document page

text \<open>
  The outcome of \<open>http.Get\<close> followed by the JSON decoding of the body: a transport
  error, a decoding error, or the decoded \<open>items_html\<close>.
\<close>

datatype response = GetFailed string | DecodeFailed string | Body items_html

text \<open>
  The world outside: the state of the remote source, and the list of the URLs requested
  so far (the observable effect of \<open>http.Get\<close>).
\<close>

record 'w world =
  server :: 'w
  requests :: "string list"

text \<open>
  The library functions the source calls are parameters: \<open>url.QueryEscape\<close>,
  \<open>Time.Format\<close>, \<open>url.Parse\<close>, \<open>URL.String\<close>, \<open>time.Parse\<close> and the
  answer of the remote source to a request.
\<close>

record ('u, 'w) env =
  url_QueryEscape :: "string \<Rightarrow> string"
  time_Format :: "gotime \<Rightarrow> string \<Rightarrow> string"
  url_Parse :: "string \<Rightarrow> string + 'u"
  url_String :: "'u \<Rightarrow> string"
  time_Parse :: "string \<Rightarrow> string \<Rightarrow> string + gotime"
  respond :: "'w \<Rightarrow> string \<Rightarrow> response \<times> 'w"

section \<open>Strings and formatting\<close>

definition digit :: "nat \<Rightarrow> char" where
  "digit d = char_of (48 + d)"

text \<open>The verb \<open>%d\<close> on a non-negative integer.\<close>

fun itoa :: "nat \<Rightarrow> string" where
  "itoa n = (if n < 10 then [digit n] else itoa (n div 10) @ [digit (n mod 10)])"

declare itoa.simps [simp del]

text \<open>\<open>strings.Split(s, sep)\<close> for a separator of one byte.\<close>

fun strings_Split :: "string \<Rightarrow> char \<Rightarrow> string list" where
  "strings_Split [] sep = [[]]"
| "strings_Split (c # cs) sep =
     (if c = sep then [] # strings_Split cs sep
      else (case strings_Split cs sep of
              [] \<Rightarrow> [[c]]
            | x # xs \<Rightarrow> (c # x) # xs))"

text \<open>\<open>strings.Trim(s, cutset)\<close>: the leading and trailing bytes of the cutset removed.\<close>

definition strings_Trim :: "string \<Rightarrow> string \<Rightarrow> string" where
  "strings_Trim s cutset =
     rev (dropWhile (\<lambda>c. c \<in> set cutset) (rev (dropWhile (\<lambda>c. c \<in> set cutset) s)))"

text \<open>\<open>strings.Replace(s, " ", "%20", -1)\<close>.\<close>

definition replace_spaces :: "string \<Rightarrow> string" where
  "replace_spaces s = concat (map (\<lambda>c. if c = CHR '' '' then ''%20'' else [c]) s)"

definition nl :: string where
  "nl = [CHR 0x0A]"

section \<open>Logging\<close>

text \<open>\<open>infof\<close> writes the formatted message to \<open>Info\<close>, or does nothing when it is nil.\<close>

definition infof :: "Scrape \<Rightarrow> string \<Rightarrow> Scrape" where
  "infof s msg = (case Info s of None \<Rightarrow> s | Some b \<Rightarrow> s\<lparr>Info := Some (b @ msg)\<rparr>)"

section \<open>Fetching a page\<close>

definition http_Get :: "('u, 'w) env \<Rightarrow> 'w world \<Rightarrow> string \<Rightarrow> response \<times> 'w world" where
  "http_Get E w raw =
     (case respond E (server w) raw of
        (r, sv) \<Rightarrow> (r, \<lparr>server = sv, requests = requests w @ [raw]\<rparr>))"

definition getHTML ::
  "('u, 'w) env \<Rightarrow> Scrape \<Rightarrow> 'w world \<Rightarrow> 'u \<Rightarrow> (error + items_html) \<times> Scrape \<times> 'w world" where
  "getHTML E s w u =
     (let raw = url_String E u;
          s1 = infof s (''fetching '' @ raw @ nl)
      in case http_Get E w raw of
           (GetFailed err, w1) \<Rightarrow> (Inl (Errorf (''GET '' @ raw @ '': '' @ err)), s1, w1)
         | (DecodeFailed err, w1) \<Rightarrow> (Inl (Errorf (''could not decode: '' @ err)), s1, w1)
         | (Body html, w1) \<Rightarrow> (Inr html, s1, w1))"

section \<open>Extraction: the three passes of \<open>tweets\<close>\<close>

text \<open>
  \<open>Selection.Each\<close> calls the function on every node with its index, in order. A panic
  of the function ends the iteration. The function works on the slice \<open>tweets\<close> and on
  the state \<open>s\<close> that the logger writes to.
\<close>

fun Each ::
  "(nat \<Rightarrow> 'a \<Rightarrow> Tweet list \<Rightarrow> 's \<Rightarrow> (panic + Tweet list) \<times> 's) \<Rightarrow>
   nat \<Rightarrow> 'a list \<Rightarrow> Tweet list \<Rightarrow> 's \<Rightarrow> (panic + Tweet list) \<times> 's" where
  "Each g i [] tws s = (Inr tws, s)"
| "Each g i (x # xs) tws s =
     (case g i x tws s of
        (Inl p, s') \<Rightarrow> (Inl p, s')
      | (Inr tws', s') \<Rightarrow> Each g (Suc i) xs tws' s')"

text \<open>
  The three functions handed to \<open>Each\<close>. The logger is a parameter: it is \<open>s.infof\<close> in
  \<open>Scrape.tweets\<close>, and \<open>logf\<close> in the package-level \<open>tweets\<close> of the earlier
  version, whose three passes are the same text otherwise.

  Pass 1: permalink, and from it the screen name and the tweet id.
\<close>

definition permalink_each ::
  "('s \<Rightarrow> string \<Rightarrow> 's) \<Rightarrow> nat \<Rightarrow> string option \<Rightarrow> Tweet list \<Rightarrow> 's \<Rightarrow>
   (panic + Tweet list) \<times> 's" where
  "permalink_each log i attr tws s =
     (case attr of
        None \<Rightarrow>
          (Inr (tws @ [Tweet_zero]),
           log s (''tweet '' @ itoa i @ '': could not get permalink'' @ nl))
      | Some p \<Rightarrow>
          (let sl = strings_Split p CHR ''/'' in
           if length sl < 4 then
             (Inr (tws @ [Tweet_zero]),
              log s (''tweet '' @ itoa i @ '': permalink '' @ p @
                     '' was not in correct format'' @ nl))
           else
             (Inr (tws @ [Tweet_zero\<lparr>Permalink := ''https://www.twitter.com'' @ p,
                                     Name := sl ! 1, ID := sl ! 3\<rparr>]), s)))"

text \<open>
  Pass 2: the timestamp. The assignment \<open>tweets[i].Timestamp = tme\<close> panics when
  \<open>i\<close> is not below \<open>len(tweets)\<close>.
\<close>

definition timestamp_each ::
  "('s \<Rightarrow> string \<Rightarrow> 's) \<Rightarrow> ('u, 'w) env \<Rightarrow> nat \<Rightarrow> string option \<Rightarrow> Tweet list \<Rightarrow> 's \<Rightarrow>
   (panic + Tweet list) \<times> 's" where
  "timestamp_each log E i attr tws s =
     (case attr of
        None \<Rightarrow> (Inr tws, log s (''tweet '' @ itoa i @ '': could not get timestamp'' @ nl))
      | Some t \<Rightarrow>
          if i > length tws then
            (Inr tws,
             log s (''timestamp: found '' @ itoa i @ '' timestamps, only '' @
                    itoa (length tws) @ '' tweets exist'' @ nl))
          else
            (case (case time_Parse E ''3:04 PM - 2 Jan 2006'' t of
                     Inl err \<Rightarrow>
                       (time_zero,
                        log s (''tweet '' @ itoa i @ '': timestamp: could not parse time '' @
                               t @ nl))
                   | Inr tme \<Rightarrow> (tme, s)) of
               (tme, s') \<Rightarrow>
                 if i < length tws then
                   (Inr (tws[i := (tws ! i)\<lparr>Timestamp := tme\<rparr>]), s')
                 else (Inl (IndexOutOfRange (int i) (length tws)), s')))"

text \<open>Pass 3: the contents, with the same assignment by index.\<close>

definition contents_each ::
  "('s \<Rightarrow> string \<Rightarrow> 's) \<Rightarrow> nat \<Rightarrow> string \<Rightarrow> Tweet list \<Rightarrow> 's \<Rightarrow>
   (panic + Tweet list) \<times> 's" where
  "contents_each log i text tws s =
     (let t = strings_Trim text ('' '' @ nl) in
      if t = [] then
        (Inr tws, log s (''tweet '' @ itoa i @ '': contents were empty'' @ nl))
      else if i > length tws then
        (Inr tws,
         log s (''text: found '' @ itoa i @ '' contents, only '' @
                itoa (length tws) @ '' tweets exist'' @ nl))
      else if i < length tws then
        (Inr (tws[i := (tws ! i)\<lparr>Contents := t\<rparr>]), s)
      else (Inl (IndexOutOfRange (int i) (length tws)), s))"

text \<open>
  The three passes on a parsed document, in the order of the source, after its check for
  an empty selection. The slice \<open>tweets\<close> starts as nil.
  The check \<open>sel.Nodes == nil\<close> is the check for an empty list of tweet nodes: \<open>Find\<close>
  collects its matches by appending to a nil slice.
\<close>

definition scrape_page ::
  "('s \<Rightarrow> string \<Rightarrow> 's) \<Rightarrow> ('u, 'w) env \<Rightarrow> page \<Rightarrow> 's \<Rightarrow> (panic + Tweet list) \<times> 's" where
  "scrape_page log E doc s =
     (case Each (permalink_each log) 0 (tweet_nodes doc) [] s of
        (Inl p, s1) \<Rightarrow> (Inl p, s1)
      | (Inr tws1, s1) \<Rightarrow>
          (case Each (timestamp_each log E) 0 (timestamp_nodes doc) tws1 s1 of
             (Inl p, s2) \<Rightarrow> (Inl p, s2)
           | (Inr tws2, s2) \<Rightarrow>
               Each (contents_each log) 0 (text_nodes doc) tws2 s2))"

definition tweets ::
  "('u, 'w) env \<Rightarrow> Scrape \<Rightarrow> 'w world \<Rightarrow> 'u \<Rightarrow> ret \<times> Scrape \<times> 'w world" where
  "tweets E s w u =
     (case getHTML E s w u of
        (Inl err, s1, w1) \<Rightarrow> (Return [] (Some (Errorf (''tweets: '' @ Error err))), s1, w1)
      | (Inr (NoDocument err), s1, w1) \<Rightarrow>
          (Return [] (Some (Errorf (''tweets: '' @ err))), s1, w1)
      | (Inr (Document doc), s1, w1) \<Rightarrow>
          if tweet_nodes doc = [] then (Return [] (Some errNoTweets), s1, w1)
          else
            (case scrape_page infof E doc s1 of
               (Inl p, s2) \<Rightarrow> (Panic p, s2, w1)
             | (Inr tws, s2) \<Rightarrow>
                 (Return tws None,
                  infof s2 (itoa (length tws) @ '' tweets processed'' @ nl), w1)))"

section \<open>Pagination: \<open>Scrape.Tweets\<close>\<close>

text \<open>
  The closure \<open>f\<close>. It reads the variable \<open>minID\<close> of the enclosing function at the
  time of the call, and takes \<open>maxID\<close> as its argument.
\<close>

definition f ::
  "('u, 'w) env \<Rightarrow> string \<Rightarrow> gotime \<Rightarrow> gotime \<Rightarrow> string \<Rightarrow> string \<Rightarrow> error + 'u" where
  "f E search start until minID maxID =
     (let raw = ''https://twitter.com/i/search/timeline?f=tweets&vertical=default&q='' @
                url_QueryEscape E search @ '' since:'' @ time_Format E start ''2006-01-02'' @
                '' until:'' @ time_Format E until ''2006-01-02'' @ ''&src=typd'';
          raw = replace_spaces raw;
          raw = (if maxID \<noteq> [] then raw @ ''&max_position=TWEET-'' @ maxID @ ''-'' @ minID
                 else raw)
      in case url_Parse E raw of
           Inl err \<Rightarrow> Inl (Errorf (''parse '' @ raw @ '': '' @ err))
         | Inr u \<Rightarrow> Inr u)"

text \<open>
  The variables of one run of the loop: \<open>minID\<close>, \<open>maxID\<close>, the slice \<open>t\<close> of the
  source (here \<open>tt\<close>), the writer and the world.
\<close>

record 'w loop_state =
  minID :: string
  maxID :: string
  tt :: "Tweet list"
  scr :: Scrape
  wld :: "'w world"

text \<open>
  One iteration of the loop: \<open>Inl\<close> is the return (or panic) of \<open>Tweets\<close>, \<open>Inr\<close>
  the variables at the start of the next iteration. The reads \<open>tw[0]\<close> and
  \<open>tw[len(tw)-1]\<close> panic on an empty slice.
\<close>

definition Tweets_iteration ::
  "('u, 'w) env \<Rightarrow> string \<Rightarrow> gotime \<Rightarrow> gotime \<Rightarrow> 'w loop_state \<Rightarrow>
   (ret \<times> Scrape \<times> 'w world) + 'w loop_state" where
  "Tweets_iteration E search start until st =
     (case f E search start until (minID st) (maxID st) of
        Inl err \<Rightarrow> Inl (Return [] (Some err), scr st, wld st)
      | Inr u \<Rightarrow>
          (case tweets E (scr st) (wld st) u of
             (Panic p, s', w') \<Rightarrow> Inl (Panic p, s', w')
           | (Return tw (Some err), s', w') \<Rightarrow>
               if err = errNoTweets then Inl (Return (tt st) None, s', w')
               else Inl (Return [] (Some err), s', w')
           | (Return tw None, s', w') \<Rightarrow>
               if minID st = [] \<and> tw = [] then Inl (Panic (IndexOutOfRange 0 0), s', w')
               else if tw = [] then Inl (Panic (IndexOutOfRange (- 1) 0), s', w')
               else
                 (let minID' = (if minID st = [] then ID (tw ! 0) else minID st);
                      t' = tt st @ tw;
                      maxID' = ID (tw ! (length tw - 1))
                  in if maxID' = minID' then Inl (Return t' None, s', w')
                     else Inr \<lparr>minID = minID', maxID = maxID', tt = t', scr = s', wld = w'\<rparr>)))"

text \<open>The loop may run forever: \<open>None\<close> is the run that never returns.\<close>

partial_function (option) Tweets_loop ::
  "('u, 'w) env \<Rightarrow> string \<Rightarrow> gotime \<Rightarrow> gotime \<Rightarrow> 'w loop_state \<Rightarrow>
   (ret \<times> Scrape \<times> 'w world) option" where
  "Tweets_loop E search start until st =
     (case Tweets_iteration E search start until st of
        Inl r \<Rightarrow> Some r
      | Inr st' \<Rightarrow> Tweets_loop E search start until st')"

declare Tweets_loop.simps [code]

definition Tweets_init :: "Scrape \<Rightarrow> 'w world \<Rightarrow> 'w loop_state" where
  "Tweets_init s w = \<lparr>minID = [], maxID = [], tt = [], scr = s, wld = w\<rparr>"

definition Tweets ::
  "('u, 'w) env \<Rightarrow> string \<Rightarrow> gotime \<Rightarrow> gotime \<Rightarrow> Scrape \<Rightarrow> 'w world \<Rightarrow>
   (ret \<times> Scrape \<times> 'w world) option" where
  "Tweets E search start until s w = Tweets_loop E search start until (Tweets_init s w)"

text \<open>The loop variables that a run of \<open>Tweets\<close> passes through, at the head of the loop.\<close>

inductive visits ::
  "('u, 'w) env \<Rightarrow> string \<Rightarrow> gotime \<Rightarrow> gotime \<Rightarrow> 'w loop_state \<Rightarrow> 'w loop_state \<Rightarrow> bool"
  for E search start until st0 where
  visits_start: "visits E search start until st0 st0"
| visits_next:
    "visits E search start until st0 st \<Longrightarrow>
     Tweets_iteration E search start until st = Inr st' \<Longrightarrow>
     visits E search start until st0 st'"

section \<open>The earlier, package-level \<open>Tweets\<close>\<close>

text \<open>
  The earlier version of the file keeps \<open>minID\<close> in a package-level variable, and logs
  with \<open>logf\<close> to the package-level writer \<open>Out\<close> when \<open>Verbose\<close> is set. The
  package-level variables live as long as the process, across calls of \<open>Tweets\<close>.
\<close>

record globals =
  pkg_minID :: string
  Out :: string
  Verbose :: bool

definition logf :: "globals \<Rightarrow> string \<Rightarrow> globals" where
  "logf g msg = (if Verbose g then g\<lparr>Out := Out g @ msg\<rparr> else g)"

definition pkg_getHTML ::
  "('u, 'w) env \<Rightarrow> globals \<Rightarrow> 'w world \<Rightarrow> string \<Rightarrow>
   (error + items_html) \<times> globals \<times> 'w world" where
  "pkg_getHTML E g w url =
     (let g1 = logf g (''fetching '' @ url @ nl)
      in case http_Get E w url of
           (GetFailed err, w1) \<Rightarrow> (Inl (Errorf (''GET '' @ url @ '': '' @ err)), g1, w1)
         | (DecodeFailed err, w1) \<Rightarrow> (Inl (Errorf (''could not decode: '' @ err)), g1, w1)
         | (Body html, w1) \<Rightarrow> (Inr html, g1, w1))"

definition pkg_tweets ::
  "('u, 'w) env \<Rightarrow> globals \<Rightarrow> 'w world \<Rightarrow> string \<Rightarrow> ret \<times> globals \<times> 'w world" where
  "pkg_tweets E g w url =
     (case pkg_getHTML E g w url of
        (Inl err, g1, w1) \<Rightarrow> (Return [] (Some (Errorf (''tweets: '' @ Error err))), g1, w1)
      | (Inr (NoDocument err), g1, w1) \<Rightarrow>
          (Return [] (Some (Errorf (''tweets: '' @ err))), g1, w1)
      | (Inr (Document doc), g1, w1) \<Rightarrow>
          if tweet_nodes doc = [] then (Return [] (Some errNoTweets), g1, w1)
          else
            (case scrape_page logf E doc g1 of
               (Inl p, g2) \<Rightarrow> (Panic p, g2, w1)
             | (Inr tws, g2) \<Rightarrow>
                 (Return tws None,
                  logf g2 (itoa (length tws) @ '' tweets processed'' @ nl), w1)))"

definition pkg_f ::
  "('u, 'w) env \<Rightarrow> string \<Rightarrow> gotime \<Rightarrow> gotime \<Rightarrow> globals \<Rightarrow> string \<Rightarrow> string" where
  "pkg_f E search start until g maxID' =
     (let u = ''https://twitter.com/i/search/timeline?f=tweets&vertical=default&q='' @
              url_QueryEscape E search @ '' since:'' @ time_Format E start ''2006-01-02'' @
              '' until:'' @ time_Format E until ''2006-01-02'' @ ''&src=typd'';
          u = replace_spaces u
      in if maxID' \<noteq> [] then u @ ''&max_position=TWEET-'' @ maxID' @ ''-'' @ pkg_minID g
         else u)"

text \<open>
  The variables of one run of the loop: the local \<open>maxID\<close> and \<open>t\<close>, the package-level
  variables, and the world.
\<close>

record 'w pkg_state =
  pkg_maxID :: string
  pkg_tt :: "Tweet list"
  pkg_vars :: globals
  pkg_wld :: "'w world"

definition pkg_iteration ::
  "('u, 'w) env \<Rightarrow> string \<Rightarrow> gotime \<Rightarrow> gotime \<Rightarrow> 'w pkg_state \<Rightarrow>
   (ret \<times> globals \<times> 'w world) + 'w pkg_state" where
  "pkg_iteration E search start until st =
     (let u = pkg_f E search start until (pkg_vars st) (pkg_maxID st) in
      case pkg_tweets E (pkg_vars st) (pkg_wld st) u of
        (Panic p, g', w') \<Rightarrow> Inl (Panic p, g', w')
      | (Return tw (Some err), g', w') \<Rightarrow>
          if err = errNoTweets then Inl (Return (pkg_tt st) None, g', w')
          else Inl (Return [] (Some err), g', w')
      | (Return tw None, g', w') \<Rightarrow>
          if pkg_minID g' = [] \<and> tw = [] then Inl (Panic (IndexOutOfRange 0 0), g', w')
          else if tw = [] then Inl (Panic (IndexOutOfRange (- 1) 0), g', w')
          else
            (let g'' = (if pkg_minID g' = [] then g'\<lparr>pkg_minID := ID (tw ! 0)\<rparr> else g');
                 t' = pkg_tt st @ tw;
                 maxID' = ID (tw ! (length tw - 1))
             in if maxID' = pkg_minID g'' then Inl (Return t' None, g'', w')
                else Inr \<lparr>pkg_maxID = maxID', pkg_tt = t', pkg_vars = g'', pkg_wld = w'\<rparr>))"

partial_function (option) pkg_loop ::
  "('u, 'w) env \<Rightarrow> string \<Rightarrow> gotime \<Rightarrow> gotime \<Rightarrow> 'w pkg_state \<Rightarrow>
   (ret \<times> globals \<times> 'w world) option" where
  "pkg_loop E search start until st =
     (case pkg_iteration E search start until st of
        Inl r \<Rightarrow> Some r
      | Inr st' \<Rightarrow> pkg_loop E search start until st')"

declare pkg_loop.simps [code]

definition pkg_Tweets ::
  "('u, 'w) env \<Rightarrow> string \<Rightarrow> gotime \<Rightarrow> gotime \<Rightarrow> globals \<Rightarrow> 'w world \<Rightarrow>
   (ret \<times> globals \<times> 'w world) option" where
  "pkg_Tweets E search start until g w =
     pkg_loop E search start until \<lparr>pkg_maxID = [], pkg_tt = [], pkg_vars = g, pkg_wld = w\<rparr>"

section \<open>Notions for the statements\<close>

text \<open>
  The element that \<open>permalink_each\<close> appends for a node, and the warning it logs for
  a node without a usable permalink.
\<close>

definition permalink_record :: "string option \<Rightarrow> Tweet" where
  "permalink_record attr =
     (case attr of
        None \<Rightarrow> Tweet_zero
      | Some p \<Rightarrow>
          if length (strings_Split p CHR ''/'') < 4 then Tweet_zero
          else Tweet_zero\<lparr>Permalink := ''https://www.twitter.com'' @ p,
                          Name := strings_Split p CHR ''/'' ! 1,
                          ID := strings_Split p CHR ''/'' ! 3\<rparr>)"

definition permalink_warning :: "nat \<Rightarrow> string option \<Rightarrow> string" where
  "permalink_warning i attr =
     (case attr of
        None \<Rightarrow> ''tweet '' @ itoa i @ '': could not get permalink'' @ nl
      | Some p \<Rightarrow> ''tweet '' @ itoa i @ '': permalink '' @ p @ '' was not in correct format'' @ nl)"

text \<open>The fields of a tweet that pass 1 sets.\<close>

definition identity :: "Tweet \<Rightarrow> string \<times> string \<times> string" where
  "identity tw = (Permalink tw, Name tw, ID tw)"

section \<open>A source with fixed pages\<close>

text \<open>
  A remote source without state, which answers each URL with the response listed for it,
  and with a page without tweets otherwise. The library functions are simple stand-ins:
  the URL is its raw string, and the only timestamp that parses is \<open>noon\<close>.
\<close>

definition no_tweets :: page where
  "no_tweets = \<lparr>tweet_nodes = [], timestamp_nodes = [], text_nodes = []\<rparr>"

definition canned :: "(string \<times> response) list \<Rightarrow> (string, unit) env" where
  "canned pages =
     \<lparr>url_QueryEscape = (\<lambda>s. s),
      time_Format = (\<lambda>t layout. itoa (nat t)),
      url_Parse = Inr,
      url_String = (\<lambda>u. u),
      time_Parse = (\<lambda>layout v. if v = ''noon'' then Inr 12 else Inl ''cannot parse''),
      respond = (\<lambda>sv raw. (case map_of pages raw of
                               None \<Rightarrow> Body (Document no_tweets)
                             | Some r \<Rightarrow> r, sv))\<rparr>"

definition nowhere :: "unit world" where
  "nowhere = \<lparr>server = (), requests = []\<rparr>"

text \<open>
  The query of the search \<open>go\<close> from day 1 to day 2 under these stand-ins, a response
  whose document has tweet nodes only, the tweet that pass 1 makes of the permalink
  \<open>/name/status/id\<close>, and a \<open>Scrape\<close> without a writer.
\<close>

definition go_url :: string where
  "go_url = ''https://twitter.com/i/search/timeline?f=tweets&vertical=default&q=go%20since:1%20until:2&src=typd''"

definition only_tweets :: "string option list \<Rightarrow> response" where
  "only_tweets attrs =
     Body (Document \<lparr>tweet_nodes = attrs, timestamp_nodes = [], text_nodes = []\<rparr>)"

definition tweet_of :: "string \<Rightarrow> string \<Rightarrow> Tweet" where
  "tweet_of name i =
     \<lparr>Permalink = ''https://www.twitter.com/'' @ name @ ''/status/'' @ i, Name = name,
      Timestamp = 0, Contents = [], ID = i\<rparr>"

definition silent :: Scrape where
  "silent = \<lparr>Info = None\<rparr>"

definition one_page :: "(string, unit) env" where
  "one_page = canned [(go_url, only_tweets [Some ''/a/status/5''])]"

text \<open>
  Sources for a run of two requests: the first page holds the tweets 5 and 4, so the
  second request carries the token \<open>TWEET-4-5\<close>. The second answer is a page that ends
  with tweet 5 again, a transport error, or a page without tweets.
\<close>

definition next_url :: string where
  "next_url = go_url @ ''&max_position=TWEET-4-5''"

definition first_page :: response where
  "first_page = only_tweets [Some ''/a/status/5'', Some ''/b/status/4'']"

definition after_first :: "unit loop_state" where
  "after_first =
     \<lparr>minID = ''5'', maxID = ''4'', tt = [tweet_of ''a'' ''5'', tweet_of ''b'' ''4''],
      scr = silent, wld = \<lparr>server = (), requests = [go_url]\<rparr>\<rparr>"

definition floor_again :: "(string, unit) env" where
  "floor_again =
     canned [(go_url, first_page),
             (next_url, only_tweets [Some ''/c/status/3'', Some ''/a/status/5''])]"

definition then_timeout :: "(string, unit) env" where
  "then_timeout = canned [(go_url, first_page), (next_url, GetFailed ''timeout'')]"

definition then_nothing :: "(string, unit) env" where
  "then_nothing = canned [(go_url, first_page)]"

text \<open>
  A page of three tweets, the second without a permalink and the third with a permalink
  of two segments, and a \<open>Scrape\<close> with an empty writer.
\<close>

definition mixed_page :: page where
  "mixed_page =
     \<lparr>tweet_nodes = [Some ''/a/status/5'', None, Some ''/b''],
      timestamp_nodes = [Some ''noon'', Some ''noon'', Some ''later''],
      text_nodes = [''one'', ''two'', '' '']\<rparr>"

definition loud :: Scrape where
  "loud = \<lparr>Info = Some []\<rparr>"

text \<open>
  A page with one tweet node and two timestamp nodes. Sources whose first page ends, or
  starts, with a tweet node without a permalink. The package-level variables of a process
  in which \<open>Tweets\<close> has not run yet.
\<close>

definition one_tweet_two_stamps :: page where
  "one_tweet_two_stamps =
     \<lparr>tweet_nodes = [Some ''/a/status/5''], timestamp_nodes = [Some ''noon'', Some ''noon''],
      text_nodes = [''one'']\<rparr>"

definition placeholder_last :: "(string, unit) env" where
  "placeholder_last = canned [(go_url, only_tweets [Some ''/a/status/5'', None])]"

definition placeholder_first :: "(string, unit) env" where
  "placeholder_first =
     canned [(go_url, only_tweets [None, Some ''/a/status/5'']),
             (go_url @ ''&max_position=TWEET-5-'',
              only_tweets [Some ''/b/status/3'', Some ''/c/status/2''])]"

definition placeholder_then_three :: "(string, unit) env" where
  "placeholder_then_three =
     canned [(go_url, only_tweets [None, Some ''/a/status/3'']),
             (go_url @ ''&max_position=TWEET-3-'', only_tweets [Some ''/b/status/3''])]"

definition fresh :: globals where
  "fresh = \<lparr>pkg_minID = [], Out = [], Verbose = False\<rparr>"

section \<open>Properties of the extraction\<close>

lemma permalink_each_appends:
  "fst (permalink_each log i x tws s) = Inr (tws @ [permalink_record x])"
  by (simp add: permalink_each_def permalink_record_def Let_def split: option.splits)

lemma Each_permalink:
  "fst (Each (permalink_each log) i xs tws s) = Inr (tws @ map permalink_record xs)"
proof (induction xs arbitrary: i tws s)
  case Nil
  show ?case by simp
next
  case (Cons x xs)
  obtain s1 where "permalink_each log i x tws s = (Inr (tws @ [permalink_record x]), s1)"
    using permalink_each_appends [of log i x tws s]
    by (cases "permalink_each log i x tws s") simp
  then show ?case
    using Cons.IH [of "Suc i" "tws @ [permalink_record x]" s1] by simp
qed

lemma Each_keeps:
  assumes step: "\<And>i x tws s res s'. g i x tws s = (Inr res, s') \<Longrightarrow> P res = P tws"
  shows "Each g i xs tws s = (Inr res, s') \<Longrightarrow> P res = P tws"
proof (induction xs arbitrary: i tws s)
  case Nil
  then show ?case by simp
next
  case (Cons x xs)
  then obtain tws1 s1 where one: "g i x tws s = (Inr tws1, s1)"
    and more: "Each g (Suc i) xs tws1 s1 = (Inr res, s')"
    by (auto split: prod.splits sum.splits)
  from Cons.IH [OF more] step [OF one] show ?case by simp
qed

lemma map_identity_update:
  "i < length tws \<Longrightarrow> identity tw = identity (tws ! i) \<Longrightarrow>
   map identity (tws[i := tw]) = map identity tws"
  by (simp add: map_update list_update_same_conv)

lemma timestamp_each_keeps:
  assumes "timestamp_each log E i x tws s = (Inr res, s')"
  shows "map identity res = map identity tws"
  using assms
  by (auto simp: timestamp_each_def map_identity_update identity_def
           split: option.splits if_splits sum.splits prod.splits)

lemma contents_each_keeps:
  assumes "contents_each log i x tws s = (Inr res, s')"
  shows "map identity res = map identity tws"
  using assms
  by (auto simp: contents_each_def Let_def map_identity_update identity_def split: if_splits)

lemma scrape_page_identity:
  assumes "scrape_page log E doc s = (Inr res, s')"
  shows "map identity res = map (identity \<circ> permalink_record) (tweet_nodes doc)"
proof -
  from assms obtain t1 s1 t2 s2 where
    p1: "Each (permalink_each log) 0 (tweet_nodes doc) [] s = (Inr t1, s1)"
    and p2: "Each (timestamp_each log E) 0 (timestamp_nodes doc) t1 s1 = (Inr t2, s2)"
    and p3: "Each (contents_each log) 0 (text_nodes doc) t2 s2 = (Inr res, s')"
    by (auto simp: scrape_page_def split: prod.splits sum.splits)
  have "t1 = map permalink_record (tweet_nodes doc)"
    using Each_permalink [of log 0 "tweet_nodes doc" "[]" s] p1 by simp
  moreover have "map identity t2 = map identity t1"
    using Each_keeps [where g = "timestamp_each log E" and P = "map identity",
        OF timestamp_each_keeps p2] .
  moreover have "map identity res = map identity t2"
    using Each_keeps [where g = "contents_each log" and P = "map identity",
        OF contents_each_keeps p3] .
  ultimately show ?thesis by simp
qed

lemma scrape_page_length:
  assumes "scrape_page log E doc s = (Inr res, s')"
  shows "length res = length (tweet_nodes doc)"
  using scrape_page_identity [OF assms, THEN arg_cong, of length] by simp

lemma getHTML_world:
  "snd (snd (getHTML E s w u)) =
     \<lparr>server = snd (respond E (server w) (url_String E u)),
      requests = requests w @ [url_String E u]\<rparr>"
  by (simp add: getHTML_def http_Get_def Let_def split: prod.splits response.splits)

lemma tweets_world:
  "snd (snd (tweets E s w u)) =
     \<lparr>server = snd (respond E (server w) (url_String E u)),
      requests = requests w @ [url_String E u]\<rparr>"
  using getHTML_world [of E s w u]
  by (auto simp: tweets_def split: prod.splits sum.splits items_html.splits)

lemma tweets_success:
  assumes "tweets E s w u = (Return tw None, s', w')"
  shows "\<exists>doc. fst (respond E (server w) (url_String E u)) = Body (Document doc) \<and>
           tweet_nodes doc \<noteq> [] \<and>
           map identity tw = map (identity \<circ> permalink_record) (tweet_nodes doc)"
  using assms
  by (auto simp: tweets_def getHTML_def http_Get_def Let_def scrape_page_identity
           split: prod.splits sum.splits items_html.splits response.splits if_splits)

lemma tweets_success_nonempty:
  assumes "tweets E s w u = (Return tw None, s', w')"
  shows "tw \<noteq> []"
  using tweets_success [OF assms] by auto

lemma visits_loop:
  assumes "visits E search start until st0 st"
  shows "Tweets_loop E search start until st0 = Tweets_loop E search start until st"
  using assms
proof (induction rule: visits.induct)
  case visits_start
  show ?case by simp
next
  case (visits_next st st')
  have "Tweets_loop E search start until st = Tweets_loop E search start until st'"
    by (subst Tweets_loop.simps) (simp add: visits_next.hyps)
  with visits_next.IH show ?case by simp
qed

lemma iteration_success:
  assumes "f E search start until (minID st) (maxID st) = Inr u"
    and "tweets E (scr st) (wld st) u = (Return tw None, s', w')"
  shows "Tweets_iteration E search start until st =
      (let minID' = (if minID st = [] then ID (hd tw) else minID st) in
       if ID (last tw) = minID' then Inl (Return (tt st @ tw) None, s', w')
       else Inr \<lparr>minID = minID', maxID = ID (last tw), tt = tt st @ tw, scr = s', wld = w'\<rparr>)"
proof -
  have ne: "tw \<noteq> []"
    using assms(2) by (rule tweets_success_nonempty)
  then have "tw ! 0 = hd tw" "tw ! (length tw - 1) = last tw"
    by (simp_all add: hd_conv_nth last_conv_nth)
  with ne assms show ?thesis
    by (simp add: Tweets_iteration_def Let_def)
qed

lemma Tweets_at:
  assumes "visits E search start until (Tweets_init s w) st"
    and "Tweets_iteration E search start until st = Inl r"
  shows "Tweets E search start until s w = Some r"
proof -
  have "Tweets E search start until s w = Tweets_loop E search start until st"
    unfolding Tweets_def using assms(1) by (rule visits_loop)
  also have "\<dots> = Some r"
    by (subst Tweets_loop.simps) (simp add: assms(2))
  finally show ?thesis .
qed

lemma permalink_each_placeholder:
  assumes "case x of None \<Rightarrow> True | Some p \<Rightarrow> length (strings_Split p CHR ''/'') < 4"
  shows "permalink_each log i x tws s =
     (Inr (tws @ [Tweet_zero]), log s (permalink_warning i x))"
  using assms
  by (simp add: permalink_each_def permalink_warning_def Let_def split: option.splits)

lemma permalink_record_placeholder:
  assumes "case x of None \<Rightarrow> True | Some p \<Rightarrow> length (strings_Split p CHR ''/'') < 4"
  shows "permalink_record x = Tweet_zero"
  using assms by (simp add: permalink_record_def split: option.splits)

lemma infof_appends: "Info s = Some b \<Longrightarrow> Info (infof s msg) = Some (b @ msg)"
  by (simp add: infof_def)

lemma permalink_each_log:
  assumes "Info s = Some b"
  shows "\<exists>msg. Info (snd (permalink_each infof i x tws s)) = Some (b @ msg)"
proof (cases "case x of None \<Rightarrow> True | Some p \<Rightarrow> length (strings_Split p CHR ''/'') < 4")
  case True
  then show ?thesis
    using assms by (simp add: permalink_each_placeholder infof_appends)
next
  case False
  then have "snd (permalink_each infof i x tws s) = s"
    by (auto simp: permalink_each_def Let_def split: option.splits)
  with assms show ?thesis by simp
qed

lemma Each_permalink_log:
  assumes "Info s = Some b"
  shows "\<exists>post. Info (snd (Each (permalink_each infof) i xs tws s)) = Some (b @ post)"
  using assms
proof (induction xs arbitrary: i tws s b)
  case Nil
  then show ?case by simp
next
  case (Cons x xs)
  obtain s1 where one: "permalink_each infof i x tws s = (Inr (tws @ [permalink_record x]), s1)"
    using permalink_each_appends [of infof i x tws s]
    by (cases "permalink_each infof i x tws s") simp
  from permalink_each_log [OF Cons.prems, of i x tws] one
  obtain msg where "Info s1 = Some (b @ msg)" by auto
  from Cons.IH [OF this, of "Suc i" "tws @ [permalink_record x]"]
  obtain post where
    "Info (snd (Each (permalink_each infof) (Suc i) xs (tws @ [permalink_record x]) s1)) =
       Some ((b @ msg) @ post)" by blast
  with one have "Info (snd (Each (permalink_each infof) i (x # xs) tws s)) =
      Some (b @ (msg @ post))" by simp
  then show ?case by blast
qed

lemma Each_permalink_warns:
  assumes "k < length xs"
    and "case xs ! k of None \<Rightarrow> True | Some p \<Rightarrow> length (strings_Split p CHR ''/'') < 4"
    and "Info s = Some b"
  shows "\<exists>pre post. Info (snd (Each (permalink_each infof) i xs tws s)) =
           Some (b @ pre @ permalink_warning (i + k) (xs ! k) @ post)"
  using assms
proof (induction xs arbitrary: i k tws s b)
  case Nil
  then show ?case by simp
next
  case (Cons x xs)
  obtain s1 where one: "permalink_each infof i x tws s = (Inr (tws @ [permalink_record x]), s1)"
    using permalink_each_appends [of infof i x tws s]
    by (cases "permalink_each infof i x tws s") simp
  show ?case
  proof (cases k)
    case 0
    with Cons.prems have bad: "case x of None \<Rightarrow> True
        | Some p \<Rightarrow> length (strings_Split p CHR ''/'') < 4" by simp
    have "s1 = infof s (permalink_warning i x)"
      using one permalink_each_placeholder [OF bad, of infof i tws s] by simp
    then have "Info s1 = Some (b @ permalink_warning i x)"
      using Cons.prems(3) by (simp add: infof_appends)
    from Each_permalink_log [OF this, of "Suc i" xs "tws @ [permalink_record x]"]
    obtain post where
      "Info (snd (Each (permalink_each infof) (Suc i) xs (tws @ [permalink_record x]) s1)) =
         Some ((b @ permalink_warning i x) @ post)" by blast
    with one 0 have "Info (snd (Each (permalink_each infof) i (x # xs) tws s)) =
        Some (b @ [] @ permalink_warning (i + k) ((x # xs) ! k) @ post)" by simp
    then show ?thesis by blast
  next
    case (Suc j)
    with Cons.prems have j: "j < length xs"
      and bad: "case xs ! j of None \<Rightarrow> True
        | Some p \<Rightarrow> length (strings_Split p CHR ''/'') < 4" by simp_all
    from permalink_each_log [OF Cons.prems(3), of i x tws] one
    obtain msg where "Info s1 = Some (b @ msg)" by auto
    from Cons.IH [OF j bad this, of "Suc i" "tws @ [permalink_record x]"]
    obtain pre post where
      "Info (snd (Each (permalink_each infof) (Suc i) xs (tws @ [permalink_record x]) s1)) =
         Some ((b @ msg) @ pre @ permalink_warning (Suc i + j) (xs ! j) @ post)" by blast
    with one Suc have "Info (snd (Each (permalink_each infof) i (x # xs) tws s)) =
        Some (b @ (msg @ pre) @ permalink_warning (i + k) ((x # xs) ! k) @ post)" by simp
    then show ?thesis by blast
  qed
qed

section \<open>Properties of the loop\<close>

text \<open>
  Once \<open>minID\<close> is not empty, no iteration changes it. And on a source whose answer to
  a URL does not depend on its state, what \<open>Scrape.Tweets\<close> returns (or that it never
  returns) depends on neither the writer nor the earlier requests: \<open>minID\<close> and
  \<open>maxID\<close> are local to the call.
\<close>

lemma iteration_keeps_minID:
  assumes "Tweets_iteration E search start until st = Inr st'" and "minID st \<noteq> []"
  shows "minID st' = minID st"
  using assms
  by (auto simp: Tweets_iteration_def Let_def
           split: sum.splits prod.splits ret.splits option.splits if_splits)

lemma visits_keeps_minID:
  assumes "visits E search start until st0 st" and "minID st0 \<noteq> []"
  shows "minID st = minID st0"
  using assms
  by (induction rule: visits.induct) (auto dest: iteration_keeps_minID)

lemma permalink_each_result:
  "fst (permalink_each log i x tws s) = fst (permalink_each log' i x tws s')"
  by (simp add: permalink_each_appends)

lemma timestamp_each_result:
  "fst (timestamp_each log E i x tws s) = fst (timestamp_each log' E i x tws s')"
  by (simp add: timestamp_each_def split: option.splits sum.splits)

lemma contents_each_result:
  "fst (contents_each log i x tws s) = fst (contents_each log' i x tws s')"
  by (simp add: contents_each_def Let_def)

lemma Each_result:
  assumes "\<And>i x tws s s'. fst (g i x tws s) = fst (h i x tws s')"
  shows "fst (Each g i xs tws s) = fst (Each h i xs tws s')"
proof (induction xs arbitrary: i tws s s')
  case Nil
  show ?case by simp
next
  case (Cons x xs)
  obtain r s1 where g: "g i x tws s = (r, s1)" by (cases "g i x tws s")
  obtain r' s1' where h: "h i x tws s' = (r', s1')" by (cases "h i x tws s'")
  from assms [of i x tws s s'] g h have "r' = r" by simp
  with g h Cons.IH show ?case
    by (cases r) simp_all
qed

lemma scrape_page_result:
  "fst (scrape_page log E doc s) = fst (scrape_page log' E doc s')"
proof -
  let ?p1 = "Each (permalink_each log) 0 (tweet_nodes doc) [] s"
  let ?p1' = "Each (permalink_each log') 0 (tweet_nodes doc) [] s'"
  have one: "fst ?p1 = fst ?p1'"
    by (rule Each_result) (rule permalink_each_result)
  obtain r s1 where p1: "?p1 = (r, s1)" by (cases ?p1)
  obtain s1' where p1': "?p1' = (r, s1')" using one p1 by (cases ?p1') simp
  show ?thesis
  proof (cases r)
    case (Inl p)
    with p1 p1' show ?thesis by (simp add: scrape_page_def)
  next
    case (Inr t1)
    let ?p2 = "Each (timestamp_each log E) 0 (timestamp_nodes doc) t1 s1"
    let ?p2' = "Each (timestamp_each log' E) 0 (timestamp_nodes doc) t1 s1'"
    have two: "fst ?p2 = fst ?p2'"
      by (rule Each_result) (rule timestamp_each_result)
    obtain r2 s2 where p2: "?p2 = (r2, s2)" by (cases ?p2)
    obtain s2' where p2': "?p2' = (r2, s2')" using two p2 by (cases ?p2') simp
    show ?thesis
    proof (cases r2)
      case (Inl p)
      with Inr p1 p1' p2 p2' show ?thesis by (simp add: scrape_page_def)
    next
      case t2: (Inr t2)
      have "fst (Each (contents_each log) 0 (text_nodes doc) t2 s2) =
            fst (Each (contents_each log') 0 (text_nodes doc) t2 s2')"
        by (rule Each_result) (rule contents_each_result)
      with Inr t2 p1 p1' p2 p2' show ?thesis by (simp add: scrape_page_def)
    qed
  qed
qed

lemma tweets_result:
  assumes "fst (respond E (server w) (url_String E u)) = fst (respond E (server w') (url_String E u))"
  shows "fst (tweets E s w u) = fst (tweets E s' w' u)"
proof -
  obtain r sv where a: "respond E (server w) (url_String E u) = (r, sv)"
    by (cases "respond E (server w) (url_String E u)")
  with assms obtain sv' where b: "respond E (server w') (url_String E u) = (r, sv')"
    by (cases "respond E (server w') (url_String E u)") simp
  show ?thesis
  proof (cases r)
    case (Body html)
    show ?thesis
    proof (cases html)
      case (Document doc)
      have "fst (scrape_page infof E doc (infof s (''fetching '' @ url_String E u @ nl))) =
            fst (scrape_page infof E doc (infof s' (''fetching '' @ url_String E u @ nl)))"
        by (rule scrape_page_result)
      with a b Body Document show ?thesis
        by (auto simp: tweets_def getHTML_def http_Get_def Let_def split: prod.splits sum.splits)
    qed (use a b Body in \<open>simp add: tweets_def getHTML_def http_Get_def Let_def\<close>)
  qed (use a b in \<open>simp_all add: tweets_def getHTML_def http_Get_def Let_def\<close>)
qed


lemma iteration_after_fetch:
  assumes "f E search start until (minID st) (maxID st) = Inr u"
    and "tweets E (scr st) (wld st) u = (r, s1, w1)"
  shows "Tweets_iteration E search start until st =
     (case r of
        Panic p \<Rightarrow> Inl (Panic p, s1, w1)
      | Return tw None \<Rightarrow>
          if minID st = [] \<and> tw = [] then Inl (Panic (IndexOutOfRange 0 0), s1, w1)
          else if tw = [] then Inl (Panic (IndexOutOfRange (- 1) 0), s1, w1)
          else
            (let minID' = (if minID st = [] then ID (tw ! 0) else minID st);
                 t' = tt st @ tw;
                 maxID' = ID (tw ! (length tw - 1))
             in if maxID' = minID' then Inl (Return t' None, s1, w1)
                else Inr \<lparr>minID = minID', maxID = maxID', tt = t', scr = s1, wld = w1\<rparr>)
      | Return tw (Some err) \<Rightarrow>
          if err = errNoTweets then Inl (Return (tt st) None, s1, w1)
          else Inl (Return [] (Some err), s1, w1))"
  by (simp add: Tweets_iteration_def assms split: ret.splits option.splits)

lemma iteration_result:
  assumes stable: "\<And>sv sv' url. fst (respond E sv url) = fst (respond E sv' url)"
    and same: "minID st = minID st'" "maxID st = maxID st'" "tt st = tt st'"
  shows "case Tweets_iteration E search start until st of
           Inl r \<Rightarrow> (\<exists>r'. Tweets_iteration E search start until st' = Inl r' \<and> fst r' = fst r)
         | Inr n \<Rightarrow> (\<exists>n'. Tweets_iteration E search start until st' = Inr n' \<and>
                        minID n = minID n' \<and> maxID n = maxID n' \<and> tt n = tt n')"
proof (cases "f E search start until (minID st) (maxID st)")
  case (Inl err)
  with same show ?thesis by (simp add: Tweets_iteration_def)
next
  case (Inr u)
  obtain r s1 w1 where a: "tweets E (scr st) (wld st) u = (r, s1, w1)"
    by (cases "tweets E (scr st) (wld st) u")
  have "fst (tweets E (scr st) (wld st) u) = fst (tweets E (scr st') (wld st') u)"
    by (rule tweets_result) (rule stable)
  with a obtain s1' w1' where b: "tweets E (scr st') (wld st') u = (r, s1', w1')"
    by (cases "tweets E (scr st') (wld st') u") simp
  from Inr same have u': "f E search start until (minID st') (maxID st') = Inr u"
    by simp
  have one: "minID st' = minID st" "tt st' = tt st"
    using same by simp_all
  show ?thesis
    unfolding iteration_after_fetch [OF Inr a] iteration_after_fetch [OF u' b] one
    by (simp add: Let_def split: ret.splits option.splits)
qed

lemma loop_result:
  assumes run: "Tweets_loop (E :: ('u, 'w) env) search start until st = Some r"
  shows "(\<forall>sv sv' url. fst (respond E sv url) = fst (respond E sv' url)) \<longrightarrow>
         (\<forall>st'. minID st = minID st' \<and> maxID st = maxID st' \<and> tt st = tt st' \<longrightarrow>
            (\<exists>r'. Tweets_loop E search start until st' = Some r' \<and> fst r' = fst r))"
  using run
proof (induction E search start until st r rule: Tweets_loop.raw_induct [rotated 1, consumes 1, case_names step])
  case (step loop E search start until st r)
  show ?case
  proof (intro impI allI)
    fix st' :: "'w loop_state"
    assume stable: "\<forall>sv sv' url. fst (respond E sv url) = fst (respond E sv' url)"
      and same: "minID st = minID st' \<and> maxID st = maxID st' \<and> tt st = tt st'"
    note step = iteration_result [of E st st' search start until]
    show "\<exists>r'. Tweets_loop E search start until st' = Some r' \<and> fst r' = fst r"
    proof (cases "Tweets_iteration E search start until st")
      case (Inl x)
      with step.hyps have "x = r" by simp
      with Inl step stable same
      obtain r' where "Tweets_iteration E search start until st' = Inl r'" "fst r' = fst r"
        by auto
      then show ?thesis
        by (subst Tweets_loop.simps) simp
    next
      case (Inr n)
      with step stable same
      obtain n' where n': "Tweets_iteration E search start until st' = Inr n'"
        and eq: "minID n = minID n' \<and> maxID n = maxID n' \<and> tt n = tt n'"
        by auto
      from step.hyps Inr have "loop E search start until n = Some r" by simp
      from step.IH [OF this] stable eq
      obtain r' where "Tweets_loop E search start until n' = Some r'" "fst r' = fst r"
        by blast
      with n' show ?thesis
        by (subst Tweets_loop.simps) simp
    qed
  qed
qed

lemma Tweets_rerun:
  assumes stable: "\<And>sv sv' url. fst (respond E sv url) = fst (respond E sv' url)"
  shows "map_option fst (Tweets E search start until s w) =
         map_option fst (Tweets E search start until s' w')"
proof -
  have half: "\<exists>r'. Tweets E search start until s2 w2 = Some r' \<and> fst r' = fst r"
    if "Tweets E search start until s1 w1 = Some r" for s1 w1 s2 w2 r
    using loop_result [of E search start until "Tweets_init s1 w1" r] that stable
    unfolding Tweets_def by (auto simp: Tweets_init_def)
  show ?thesis
  proof (cases "Tweets E search start until s w")
    case None
    have "Tweets E search start until s' w' = None"
    proof (rule ccontr)
      assume "Tweets E search start until s' w' \<noteq> None"
      then obtain r where "Tweets E search start until s' w' = Some r" by auto
      from half [OF this, of s w] None show False by simp
    qed
    with None show ?thesis by simp
  next
    case (Some r)
    from half [OF this, of s' w'] Some show ?thesis by auto
  qed
qed

section \<open>Claims\<close>

text \<open>
  C10: whenever \<open>tweets\<close> returns without an error, the slice it returns is not empty,
  so the reads \<open>tw[0]\<close> and \<open>tw[len(tw)-1]\<close> of \<open>Tweets\<close> are within bounds: the
  iteration goes past them without a panic, and either returns or starts the next
  iteration with the first and the last tweet of the page in \<open>minID\<close> and \<open>maxID\<close>.
\<close>

theorem tweets_success_in_bounds:
  "(tweets E s w u = (Return tw None, s', w') \<longrightarrow>
      tw \<noteq> [] \<and> 0 < length tw \<and> length tw - 1 < length tw) \<and>
   (f E search start until (minID st) (maxID st) = Inr u \<longrightarrow>
    tweets E (scr st) (wld st) u = (Return tw None, s', w') \<longrightarrow>
    Tweets_iteration E search start until st =
      (let minID' = (if minID st = [] then ID (hd tw) else minID st) in
       if ID (last tw) = minID' then Inl (Return (tt st @ tw) None, s', w')
       else Inr \<lparr>minID = minID', maxID = ID (last tw), tt = tt st @ tw,
                scr = s', wld = w'\<rparr>))"
proof (intro conjI impI)
  assume ok: "tweets E s w u = (Return tw None, s', w')"
  then show "tw \<noteq> []" by (rule tweets_success_nonempty)
  then show "0 < length tw" by simp
  then show "length tw - 1 < length tw" by simp
next
  assume "f E search start until (minID st) (maxID st) = Inr u"
    and "tweets E (scr st) (wld st) u = (Return tw None, s', w')"
  then show "Tweets_iteration E search start until st =
      (let minID' = (if minID st = [] then ID (hd tw) else minID st) in
       if ID (last tw) = minID' then Inl (Return (tt st @ tw) None, s', w')
       else Inr \<lparr>minID = minID', maxID = ID (last tw), tt = tt st @ tw,
                scr = s', wld = w'\<rparr>)"
    by (rule iteration_success)
qed

theorem tweets_success_in_bounds_witness:
  "tweets one_page silent nowhere go_url =
     (Return [tweet_of ''a'' ''5''] None, silent, \<lparr>server = (), requests = [go_url]\<rparr>) \<and>
   f one_page ''go'' 1 2 (minID (Tweets_init silent nowhere)) (maxID (Tweets_init silent nowhere))
     = Inr go_url \<and>
   [tweet_of ''a'' ''5''] \<noteq> [] \<and>
   Tweets_iteration one_page ''go'' 1 2 (Tweets_init silent nowhere) =
     Inl (Return [tweet_of ''a'' ''5''] None, silent, \<lparr>server = (), requests = [go_url]\<rparr>)"
proof -
  have run: "tweets one_page silent nowhere go_url =
     (Return [tweet_of ''a'' ''5''] None, silent, \<lparr>server = (), requests = [go_url]\<rparr>)"
    by code_simp
  have url: "f one_page ''go'' 1 2 (minID (Tweets_init silent nowhere))
      (maxID (Tweets_init silent nowhere)) = Inr go_url"
    by code_simp
  have run': "tweets one_page (scr (Tweets_init silent nowhere)) (wld (Tweets_init silent nowhere))
      go_url =
     (Return [tweet_of ''a'' ''5''] None, silent, \<lparr>server = (), requests = [go_url]\<rparr>)"
    using run by (simp add: Tweets_init_def)
  note inst = tweets_success_in_bounds [of one_page silent nowhere go_url "[tweet_of ''a'' ''5'']"
      silent "\<lparr>server = (), requests = [go_url]\<rparr>" "''go''" 1 2 "Tweets_init silent nowhere"]
  from inst run url run' show ?thesis
    by (simp add: Tweets_init_def tweet_of_def Let_def)
qed

text \<open>
  C2: in any iteration of the loop of \<open>Tweets\<close>, if the page was extracted and the ID of
  its last tweet (the new \<open>maxID\<close>) equals \<open>minID\<close> (set from the first tweet of this
  page if it was still empty), \<open>Tweets\<close> returns at once with the tweets accumulated,
  this page included, and no error; the requests made are those made before plus the one
  of this iteration, so nothing is fetched after it.
\<close>

theorem stop_when_cursor_meets_floor:
  assumes "visits E search start until (Tweets_init s w) st"
    and "f E search start until (minID st) (maxID st) = Inr u"
    and "tweets E (scr st) (wld st) u = (Return tw None, s', w')"
    and "ID (last tw) = (if minID st = [] then ID (hd tw) else minID st)"
  shows "Tweets E search start until s w = Some (Return (tt st @ tw) None, s', w') \<and>
         requests w' = requests (wld st) @ [url_String E u]"
proof
  have "Tweets_iteration E search start until st = Inl (Return (tt st @ tw) None, s', w')"
    using iteration_success [OF assms(2,3)] assms(4) by (simp add: Let_def)
  with assms(1) show "Tweets E search start until s w = Some (Return (tt st @ tw) None, s', w')"
    by (rule Tweets_at)
next
  show "requests w' = requests (wld st) @ [url_String E u]"
    using tweets_world [of E "scr st" "wld st" u] assms(3) by simp
qed

theorem stop_when_cursor_meets_floor_witness:
  "visits floor_again ''go'' 1 2 (Tweets_init silent nowhere) after_first \<and>
   f floor_again ''go'' 1 2 (minID after_first) (maxID after_first) = Inr next_url \<and>
   Tweets floor_again ''go'' 1 2 silent nowhere =
     Some (Return [tweet_of ''a'' ''5'', tweet_of ''b'' ''4'', tweet_of ''c'' ''3'',
                   tweet_of ''a'' ''5''] None,
           silent, \<lparr>server = (), requests = [go_url, next_url]\<rparr>)"
proof -
  have step: "Tweets_iteration floor_again ''go'' 1 2 (Tweets_init silent nowhere) = Inr after_first"
    by code_simp
  have seen: "visits floor_again ''go'' 1 2 (Tweets_init silent nowhere) after_first"
    using visits_next [OF visits_start step] .
  have url: "f floor_again ''go'' 1 2 (minID after_first) (maxID after_first) = Inr next_url"
    by code_simp
  have page: "tweets floor_again (scr after_first) (wld after_first) next_url =
      (Return [tweet_of ''c'' ''3'', tweet_of ''a'' ''5''] None, silent,
       \<lparr>server = (), requests = [go_url, next_url]\<rparr>)"
    by code_simp
  have floor: "ID (last [tweet_of ''c'' ''3'', tweet_of ''a'' ''5'']) =
      (if minID after_first = [] then ID (hd [tweet_of ''c'' ''3'', tweet_of ''a'' ''5''])
       else minID after_first)"
    by code_simp
  from stop_when_cursor_meets_floor [OF seen url page floor] seen url show ?thesis
    by (simp add: after_first_def)
qed

text \<open>
  C6: if, in any iteration of a run of \<open>Tweets\<close>, the request fails in transport or the
  body cannot be decoded, \<open>Tweets\<close> returns at once no tweets and the error, whatever
  had been accumulated in \<open>t\<close> by the earlier pages of the run.
\<close>

theorem hard_failure_discards:
  assumes "visits E search start until (Tweets_init s w) st"
    and "f E search start until (minID st) (maxID st) = Inr u"
    and "fst (respond E (server (wld st)) (url_String E u)) = r"
    and "r = GetFailed e \<or> r = DecodeFailed e"
  shows "Tweets E search start until s w =
     Some (Return []
             (Some (Errorf (''tweets: '' @
                (case r of
                   GetFailed _ \<Rightarrow> ''GET '' @ url_String E u @ '': '' @ e
                 | _ \<Rightarrow> ''could not decode: '' @ e)))),
           infof (scr st) (''fetching '' @ url_String E u @ nl),
           \<lparr>server = snd (respond E (server (wld st)) (url_String E u)),
            requests = requests (wld st) @ [url_String E u]\<rparr>)"
proof -
  obtain sv where resp: "respond E (server (wld st)) (url_String E u) = (r, sv)"
    using assms(3) by (cases "respond E (server (wld st)) (url_String E u)") simp
  have "Tweets_iteration E search start until st =
     Inl (Return []
            (Some (Errorf (''tweets: '' @
               (case r of
                  GetFailed _ \<Rightarrow> ''GET '' @ url_String E u @ '': '' @ e
                | _ \<Rightarrow> ''could not decode: '' @ e)))),
          infof (scr st) (''fetching '' @ url_String E u @ nl),
          \<lparr>server = sv, requests = requests (wld st) @ [url_String E u]\<rparr>)"
    using assms(2,4) resp
    by (auto simp: Tweets_iteration_def tweets_def getHTML_def http_Get_def Let_def)
  with assms(1) resp show ?thesis
    by (simp add: Tweets_at)
qed

theorem hard_failure_discards_witness:
  "visits then_timeout ''go'' 1 2 (Tweets_init silent nowhere) after_first \<and>
   tt after_first \<noteq> [] \<and>
   f then_timeout ''go'' 1 2 (minID after_first) (maxID after_first) = Inr next_url \<and>
   fst (respond then_timeout (server (wld after_first)) (url_String then_timeout next_url)) =
     GetFailed ''timeout'' \<and>
   Tweets then_timeout ''go'' 1 2 silent nowhere =
     Some (Return [] (Some (Errorf (''tweets: GET '' @ next_url @ '': timeout''))),
           silent, \<lparr>server = (), requests = [go_url, next_url]\<rparr>)"
proof -
  have step: "Tweets_iteration then_timeout ''go'' 1 2 (Tweets_init silent nowhere) = Inr after_first"
    by code_simp
  have seen: "visits then_timeout ''go'' 1 2 (Tweets_init silent nowhere) after_first"
    using visits_next [OF visits_start step] .
  have url: "f then_timeout ''go'' 1 2 (minID after_first) (maxID after_first) = Inr next_url"
    by code_simp
  have resp: "fst (respond then_timeout (server (wld after_first))
      (url_String then_timeout next_url)) = GetFailed ''timeout''"
    by code_simp
  have kind: "GetFailed ''timeout'' = GetFailed ''timeout'' \<or>
      GetFailed ''timeout'' = DecodeFailed ''timeout''"
    by simp
  have same: "url_String then_timeout next_url = next_url"
    by (simp add: then_timeout_def canned_def)
  have sv: "snd (respond then_timeout (server (wld after_first)) next_url) = ()"
    by simp
  have log: "\<And>msg. infof silent msg = silent"
    by (simp add: infof_def silent_def)
  have acc: "tt after_first \<noteq> []"
    by (simp add: after_first_def)
  from hard_failure_discards [OF seen url resp kind] seen url resp acc show ?thesis
    by (simp add: same sv) (simp add: after_first_def log)
qed

text \<open>
  C7: if, in any iteration of a run of \<open>Tweets\<close>, the page fetched has no tweet node
  (\<open>tweets\<close> answers \<open>errNoTweets\<close>), the loop ends and \<open>Tweets\<close> returns the tweets
  accumulated so far with a nil error.
\<close>

theorem no_tweets_ends_the_run:
  assumes "visits E search start until (Tweets_init s w) st"
    and "f E search start until (minID st) (maxID st) = Inr u"
    and "fst (respond E (server (wld st)) (url_String E u)) = Body (Document doc)"
    and "tweet_nodes doc = []"
  shows "Tweets E search start until s w =
     Some (Return (tt st) None,
           infof (scr st) (''fetching '' @ url_String E u @ nl),
           \<lparr>server = snd (respond E (server (wld st)) (url_String E u)),
            requests = requests (wld st) @ [url_String E u]\<rparr>)"
proof -
  obtain sv where resp: "respond E (server (wld st)) (url_String E u) = (Body (Document doc), sv)"
    using assms(3) by (cases "respond E (server (wld st)) (url_String E u)") simp
  have "Tweets_iteration E search start until st =
     Inl (Return (tt st) None,
          infof (scr st) (''fetching '' @ url_String E u @ nl),
          \<lparr>server = sv, requests = requests (wld st) @ [url_String E u]\<rparr>)"
    using assms(2,4) resp
    by (simp add: Tweets_iteration_def tweets_def getHTML_def http_Get_def Let_def)
  with assms(1) resp show ?thesis
    by (simp add: Tweets_at)
qed

theorem no_tweets_ends_the_run_witness:
  "visits then_nothing ''go'' 1 2 (Tweets_init silent nowhere) after_first \<and>
   f then_nothing ''go'' 1 2 (minID after_first) (maxID after_first) = Inr next_url \<and>
   fst (respond then_nothing (server (wld after_first)) (url_String then_nothing next_url)) =
     Body (Document no_tweets) \<and>
   tweet_nodes no_tweets = [] \<and>
   Tweets then_nothing ''go'' 1 2 silent nowhere =
     Some (Return [tweet_of ''a'' ''5'', tweet_of ''b'' ''4''] None,
           silent, \<lparr>server = (), requests = [go_url, next_url]\<rparr>)"
proof -
  have step: "Tweets_iteration then_nothing ''go'' 1 2 (Tweets_init silent nowhere) = Inr after_first"
    by code_simp
  have seen: "visits then_nothing ''go'' 1 2 (Tweets_init silent nowhere) after_first"
    using visits_next [OF visits_start step] .
  have url: "f then_nothing ''go'' 1 2 (minID after_first) (maxID after_first) = Inr next_url"
    by code_simp
  have resp: "fst (respond then_nothing (server (wld after_first))
      (url_String then_nothing next_url)) = Body (Document no_tweets)"
    by code_simp
  have none: "tweet_nodes no_tweets = []"
    by (simp add: no_tweets_def)
  have same: "url_String then_nothing next_url = next_url"
    by (simp add: then_nothing_def canned_def)
  have sv: "snd (respond then_nothing (server (wld after_first)) next_url) = ()"
    by simp
  have log: "\<And>msg. infof silent msg = silent"
    by (simp add: infof_def silent_def)
  from no_tweets_ends_the_run [OF seen url resp none] seen url resp none show ?thesis
    by (simp add: same sv) (simp add: after_first_def log)
qed

text \<open>
  C8: for a tweet node whose \<open>data-permalink-path\<close> is missing, or splits at the slashes
  into fewer than four parts, pass 1 appends the empty \<open>Tweet{}\<close> and logs a warning.
  So pass 1 yields one record per node, with the empty record at the position of that
  node, and the writer, if there is one, receives the warning for that position. In the
  slice that the three passes return, the length is the number of nodes and the
  permalink, name and ID at that position are empty.
\<close>

theorem placeholder_for_bad_permalink:
  assumes "k < length (tweet_nodes doc)"
    and "case tweet_nodes doc ! k of
           None \<Rightarrow> True
         | Some p \<Rightarrow> length (strings_Split p CHR ''/'') < 4"
  shows
    "(\<forall>i tws s0. permalink_each infof i (tweet_nodes doc ! k) tws s0 =
        (Inr (tws @ [Tweet_zero]), infof s0 (permalink_warning i (tweet_nodes doc ! k)))) \<and>
     (\<exists>tws1 s1. Each (permalink_each infof) 0 (tweet_nodes doc) [] s = (Inr tws1, s1) \<and>
        length tws1 = length (tweet_nodes doc) \<and> tws1 ! k = Tweet_zero \<and>
        (\<forall>b. Info s = Some b \<longrightarrow>
           (\<exists>pre post. Info s1 =
              Some (b @ pre @ permalink_warning k (tweet_nodes doc ! k) @ post)))) \<and>
     (\<forall>tws s'. scrape_page infof E doc s = (Inr tws, s') \<longrightarrow>
        length tws = length (tweet_nodes doc) \<and>
        Permalink (tws ! k) = [] \<and> Name (tws ! k) = [] \<and> ID (tws ! k) = [])"
proof (intro conjI allI impI)
  fix i tws s0
  show "permalink_each infof i (tweet_nodes doc ! k) tws s0 =
      (Inr (tws @ [Tweet_zero]), infof s0 (permalink_warning i (tweet_nodes doc ! k)))"
    using assms(2) by (rule permalink_each_placeholder)
next
  obtain s1 where run: "Each (permalink_each infof) 0 (tweet_nodes doc) [] s =
      (Inr (map permalink_record (tweet_nodes doc)), s1)"
    using Each_permalink [of infof 0 "tweet_nodes doc" "[]" s]
    by (cases "Each (permalink_each infof) 0 (tweet_nodes doc) [] s") simp
  have at: "map permalink_record (tweet_nodes doc) ! k = Tweet_zero"
    using assms by (simp add: permalink_record_placeholder)
  have log: "\<forall>b. Info s = Some b \<longrightarrow>
      (\<exists>pre post. Info s1 = Some (b @ pre @ permalink_warning k (tweet_nodes doc ! k) @ post))"
    using Each_permalink_warns [OF assms, of s _ 0 "[]"] run by simp
  from run at log
  show "\<exists>tws1 s1. Each (permalink_each infof) 0 (tweet_nodes doc) [] s = (Inr tws1, s1) \<and>
      length tws1 = length (tweet_nodes doc) \<and> tws1 ! k = Tweet_zero \<and>
      (\<forall>b. Info s = Some b \<longrightarrow>
         (\<exists>pre post. Info s1 =
            Some (b @ pre @ permalink_warning k (tweet_nodes doc ! k) @ post)))"
    by auto
next
  fix tws s'
  assume run: "scrape_page infof E doc s = (Inr tws, s')"
  then show "length tws = length (tweet_nodes doc)"
    by (rule scrape_page_length)
  with assms(1) have "identity (tws ! k) = identity (permalink_record (tweet_nodes doc ! k))"
    using scrape_page_identity [OF run, THEN arg_cong, of "\<lambda>xs. xs ! k"] by simp
  then have "identity (tws ! k) = identity Tweet_zero"
    using assms(2) by (simp add: permalink_record_placeholder)
  then show "Permalink (tws ! k) = []" "Name (tws ! k) = []" "ID (tws ! k) = []"
    by (simp_all add: identity_def Tweet_zero_def)
qed

theorem placeholder_for_bad_permalink_witness:
  "2 < length (tweet_nodes mixed_page) \<and>
   (case tweet_nodes mixed_page ! 2 of
      None \<Rightarrow> True
    | Some p \<Rightarrow> length (strings_Split p CHR ''/'') < 4) \<and>
   permalink_each infof 2 (tweet_nodes mixed_page ! 2) [] loud =
     (Inr [Tweet_zero],
      \<lparr>Info = Some (''tweet 2: permalink /b was not in correct format'' @ nl)\<rparr>) \<and>
   fst (scrape_page infof (canned []) mixed_page loud) =
     Inr [(tweet_of ''a'' ''5'')\<lparr>Timestamp := 12, Contents := ''one''\<rparr>,
          Tweet_zero\<lparr>Timestamp := 12, Contents := ''two''\<rparr>,
          Tweet_zero] \<and>
   length [(tweet_of ''a'' ''5'')\<lparr>Timestamp := 12, Contents := ''one''\<rparr>,
           Tweet_zero\<lparr>Timestamp := 12, Contents := ''two''\<rparr>,
           Tweet_zero] = length (tweet_nodes mixed_page) \<and>
   ID ([(tweet_of ''a'' ''5'')\<lparr>Timestamp := 12, Contents := ''one''\<rparr>,
        Tweet_zero\<lparr>Timestamp := 12, Contents := ''two''\<rparr>,
        Tweet_zero] ! 2) = []"
proof -
  have k: "2 < length (tweet_nodes mixed_page)"
    by (simp add: mixed_page_def)
  have bad: "case tweet_nodes mixed_page ! 2 of
      None \<Rightarrow> True
    | Some p \<Rightarrow> length (strings_Split p CHR ''/'') < 4"
    by code_simp
  note inst = placeholder_for_bad_permalink [OF k bad, of loud "canned []"]
  obtain s' where run: "scrape_page infof (canned []) mixed_page loud =
     (Inr [(tweet_of ''a'' ''5'')\<lparr>Timestamp := 12, Contents := ''one''\<rparr>,
           Tweet_zero\<lparr>Timestamp := 12, Contents := ''two''\<rparr>,
           Tweet_zero], s')"
  proof -
    have "fst (scrape_page infof (canned []) mixed_page loud) =
       Inr [(tweet_of ''a'' ''5'')\<lparr>Timestamp := 12, Contents := ''one''\<rparr>,
            Tweet_zero\<lparr>Timestamp := 12, Contents := ''two''\<rparr>,
            Tweet_zero]"
      by code_simp
    then show ?thesis
      using that by (cases "scrape_page infof (canned []) mixed_page loud") simp
  qed
  have one: "permalink_each infof 2 (tweet_nodes mixed_page ! 2) [] loud =
     (Inr ([] @ [Tweet_zero]), infof loud (permalink_warning 2 (tweet_nodes mixed_page ! 2)))"
    using inst by blast
  have warn: "infof loud (permalink_warning 2 (tweet_nodes mixed_page ! 2)) =
      \<lparr>Info = Some (''tweet 2: permalink /b was not in correct format'' @ nl)\<rparr>"
    by code_simp
  have final: "length [(tweet_of ''a'' ''5'')\<lparr>Timestamp := 12, Contents := ''one''\<rparr>,
           Tweet_zero\<lparr>Timestamp := 12, Contents := ''two''\<rparr>,
           Tweet_zero] = length (tweet_nodes mixed_page) \<and>
      ID ([(tweet_of ''a'' ''5'')\<lparr>Timestamp := 12, Contents := ''one''\<rparr>,
        Tweet_zero\<lparr>Timestamp := 12, Contents := ''two''\<rparr>,
        Tweet_zero] ! 2) = []"
    using inst run by blast
  from k bad one warn run final show ?thesis
    by simp
qed

text \<open>
  C1: the length of the slice that \<open>tweets\<close> returns should be the number of tweet nodes
  whatever the number of timestamp and text nodes. On a page with one tweet node and two
  timestamp nodes that carry a title, \<open>tweets\<close> returns no slice: the second timestamp
  passes the check \<open>i > len(tweets)\<close> with \<open>i = len(tweets)\<close>, and the assignment
  \<open>tweets[1].Timestamp\<close> panics.
\<close>

theorem extraction_panics_on_extra_timestamp:
  "length (tweet_nodes one_tweet_two_stamps) = 1 \<and>
   fst (tweets (canned [(go_url, Body (Document one_tweet_two_stamps))]) silent nowhere go_url) =
     Panic (IndexOutOfRange 1 1)"
  by code_simp

text \<open>
  C3: a timestamp or text node with an index \<open>i \<ge> len(tweets)\<close> should be logged and
  dropped without a write. At \<open>i = len(tweets)\<close> the check \<open>i > len(tweets)\<close> lets the
  node through, and both pass 2 and pass 3 write at index 1 of a slice of length 1, which
  panics. Only from \<open>i = len(tweets) + 1\<close> on is the node logged and dropped.
\<close>

theorem write_at_length_panics:
  "fst (timestamp_each infof (canned []) 1 (Some ''noon'') [tweet_of ''a'' ''5''] silent) =
     Inl (IndexOutOfRange 1 1) \<and>
   fst (contents_each infof 1 ''two'' [tweet_of ''a'' ''5''] silent) =
     Inl (IndexOutOfRange 1 1) \<and>
   timestamp_each infof (canned []) 2 (Some ''noon'') [tweet_of ''a'' ''5''] loud =
     (Inr [tweet_of ''a'' ''5''],
      \<lparr>Info = Some (''timestamp: found 2 timestamps, only 1 tweets exist'' @ nl)\<rparr>)"
  by code_simp

text \<open>
  C4: every fetch after the first should carry the token \<open>TWEET-maxID-minID\<close>. When the
  last tweet node of the first page has no permalink, \<open>maxID\<close> is the empty ID of the
  placeholder after the first page while \<open>minID\<close> is 5, the loop goes on, and the URL of
  the second fetch is the URL of the first one, without a token; the same page is appended
  again.
\<close>

theorem second_fetch_without_token:
  "Tweets_iteration placeholder_last ''go'' 1 2 (Tweets_init silent nowhere) =
     Inr \<lparr>minID = ''5'', maxID = [], tt = [tweet_of ''a'' ''5'', Tweet_zero], scr = silent,
          wld = \<lparr>server = (), requests = [go_url]\<rparr>\<rparr> \<and>
   f placeholder_last ''go'' 1 2 ''5'' [] = Inr go_url \<and>
   Tweets_iteration placeholder_last ''go'' 1 2
     \<lparr>minID = ''5'', maxID = [], tt = [tweet_of ''a'' ''5'', Tweet_zero], scr = silent,
      wld = \<lparr>server = (), requests = [go_url]\<rparr>\<rparr> =
     Inr \<lparr>minID = ''5'', maxID = [],
          tt = [tweet_of ''a'' ''5'', Tweet_zero, tweet_of ''a'' ''5'', Tweet_zero],
          scr = silent, wld = \<lparr>server = (), requests = [go_url, go_url]\<rparr>\<rparr>"
  by code_simp

text \<open>
  C5: \<open>minID\<close> should be set once, on the first page, and stay. When the first tweet
  node of the first page has no permalink, the first page assigns the empty ID of the
  placeholder to \<open>minID\<close>, and the second page, finding \<open>minID\<close> empty, assigns it
  again: 3, the ID of the first tweet of the second page.
\<close>

theorem minID_set_on_two_pages:
  "Tweets_iteration placeholder_first ''go'' 1 2 (Tweets_init silent nowhere) =
     Inr \<lparr>minID = [], maxID = ''5'', tt = [Tweet_zero, tweet_of ''a'' ''5''], scr = silent,
          wld = \<lparr>server = (), requests = [go_url]\<rparr>\<rparr> \<and>
   Tweets_iteration placeholder_first ''go'' 1 2
     \<lparr>minID = [], maxID = ''5'', tt = [Tweet_zero, tweet_of ''a'' ''5''], scr = silent,
      wld = \<lparr>server = (), requests = [go_url]\<rparr>\<rparr> =
     Inr \<lparr>minID = ''3'', maxID = ''2'',
          tt = [Tweet_zero, tweet_of ''a'' ''5'', tweet_of ''b'' ''3'', tweet_of ''c'' ''2''],
          scr = silent,
          wld = \<lparr>server = (), requests = [go_url, go_url @ ''&max_position=TWEET-5-'']\<rparr>\<rparr>"
  by code_simp

text \<open>
  C9: two calls of \<open>Tweets\<close> with the same arguments on a source whose pages do not
  change should return the same tweets. With the package-level \<open>minID\<close>, on a source
  whose first page starts with a tweet node without a permalink, the first call in a
  process returns three tweets and leaves \<open>minID\<close> at 3; the second call finds
  \<open>maxID = minID\<close> after the first page and returns two tweets.
\<close>

theorem second_run_returns_less:
  "pkg_Tweets placeholder_then_three ''go'' 1 2 fresh nowhere =
     Some (Return [Tweet_zero, tweet_of ''a'' ''3'', tweet_of ''b'' ''3''] None,
           fresh\<lparr>pkg_minID := ''3''\<rparr>,
           \<lparr>server = (), requests = [go_url, go_url @ ''&max_position=TWEET-3-'']\<rparr>) \<and>
   pkg_Tweets placeholder_then_three ''go'' 1 2 (fresh\<lparr>pkg_minID := ''3''\<rparr>)
       \<lparr>server = (), requests = [go_url, go_url @ ''&max_position=TWEET-3-'']\<rparr> =
     Some (Return [Tweet_zero, tweet_of ''a'' ''3''] None,
           fresh\<lparr>pkg_minID := ''3''\<rparr>,
           \<lparr>server = (),
            requests = [go_url, go_url @ ''&max_position=TWEET-3-'', go_url]\<rparr>)"
  by code_simp

end
